theory Spec2Isabelle
  imports Main "HOL-Library.Sublist"
begin

section \<open>Strings, nullable values and errors\<close>

text \<open>
  A string of the program is a \<^typ>\<open>string\<close>: a list of code units, here the code units
  below 256. A value that may be \<^verbatim>\<open>null\<close> or \<^verbatim>\<open>undefined\<close> is a
  \<^typ>\<open>string option\<close>. A thrown exception is the left summand of a result.
\<close>

datatype error = TypeError | UriError | FileError

definition truthy :: "string option \<Rightarrow> bool" where
  \<comment> \<open>the truthiness of a string value: \<^verbatim>\<open>null\<close>, \<^verbatim>\<open>undefined\<close> and the empty string are falsy\<close>
  "truthy v = (case v of None \<Rightarrow> False | Some s \<Rightarrow> s \<noteq> [])"

fun indexOf :: "string \<Rightarrow> string \<Rightarrow> int" where
  \<comment> \<open>\<^verbatim>\<open>haystack.indexOf(needle)\<close>: the first index of the needle, or \<open>-1\<close>\<close>
  "indexOf [] needle = (if needle = [] then 0 else - 1)"
| "indexOf (x # xs) needle =
     (if prefix needle (x # xs) then 0
      else (let i = indexOf xs needle in if i = - 1 then - 1 else i + 1))"

definition substr :: "string \<Rightarrow> nat \<Rightarrow> nat \<Rightarrow> string" where
  \<comment> \<open>\<^verbatim>\<open>s.substr(start, len)\<close>\<close>
  "substr s start len = take len (drop start s)"

definition endsWith :: "string \<Rightarrow> string \<Rightarrow> bool" where
  \<comment> \<open>Modelled from the spec: \<^verbatim>\<open>endsWith\<close> of \<^verbatim>\<open>vs/base/common/strings\<close> is imported and
      not part of the sources; the spec says the path "ends with the literal suffix"
      (exactly the trailing characters, case-sensitive).\<close>
  "endsWith haystack needle =
     (length needle \<le> length haystack \<and>
      drop (length haystack - length needle) haystack = needle)"

section \<open>Regular expressions\<close>

text \<open>
  The six expressions of the module use character classes, greedy \<^verbatim>\<open>*\<close> and \<^verbatim>\<open>+\<close>
  on a single class, \<^verbatim>\<open>?\<close> on a group, capture groups, concatenation and the
  assertions \<^verbatim>\<open>^\<close> and \<^verbatim>\<open>$\<close>. The matcher is the backtracking matcher of the
  language: it lists the ways an expression can match at a position, in the order in
  which backtracking tries them; the first one is the match.
\<close>

datatype rx =
    Cls "char \<Rightarrow> bool"   \<comment> \<open>one character of a class\<close>
  | Star "char \<Rightarrow> bool"  \<comment> \<open>greedy \<^verbatim>\<open>*\<close> on a class\<close>
  | Plus "char \<Rightarrow> bool"  \<comment> \<open>greedy \<^verbatim>\<open>+\<close> on a class\<close>
  | Opt rx               \<comment> \<open>greedy \<^verbatim>\<open>?\<close>\<close>
  | Cat rx rx
  | Grp nat rx           \<comment> \<open>capture group with its number\<close>
  | Bol                  \<comment> \<open>\<^verbatim>\<open>^\<close>\<close>
  | Eol                  \<comment> \<open>\<^verbatim>\<open>$\<close>\<close>

fun seq :: "rx list \<Rightarrow> rx" where
  "seq [] = Star (\<lambda>_. False)"
| "seq [r] = r"
| "seq (r # rs) = Cat r (seq rs)"

definition lit :: "char \<Rightarrow> char \<Rightarrow> bool" where
  "lit a ch = (ch = a)"

definition none_of :: "string \<Rightarrow> char \<Rightarrow> bool" where
  \<comment> \<open>a negated class \<^verbatim>\<open>[^...]\<close>\<close>
  "none_of cs ch = (ch \<notin> set cs)"

definition line_terminator :: "char \<Rightarrow> bool" where
  "line_terminator ch = (ch \<in> set [CHR 0x0A, CHR 0x0D])"

definition any_char :: "char \<Rightarrow> bool" where
  \<comment> \<open>\<^verbatim>\<open>.\<close>: every character but a line terminator\<close>
  "any_char ch = (\<not> line_terminator ch)"

definition white_space :: "char \<Rightarrow> bool" where
  \<comment> \<open>\<^verbatim>\<open>\s\<close>: tab, line feed, vertical tab, form feed, carriage return, space,
      no-break space\<close>
  "white_space ch =
     (ch \<in> set [CHR 0x09, CHR 0x0A, CHR 0x0B, CHR 0x0C, CHR 0x0D, CHR 0x20, CHR 0xA0])"

definition non_space :: "char \<Rightarrow> bool" where
  \<comment> \<open>\<^verbatim>\<open>\S\<close>\<close>
  "non_space ch = (\<not> white_space ch)"

definition digit :: "char \<Rightarrow> bool" where
  \<comment> \<open>\<^verbatim>\<open>\d\<close>\<close>
  "digit ch = (ch \<in> set ''0123456789'')"

type_synonym caps = "nat \<rightharpoonup> string"

text \<open>
  A matcher state: the character before the position (none at index 0), the rest of the
  input from the position on, and the captures so far.
\<close>

type_synonym mstate = "char option \<times> string \<times> caps"

fun greedy :: "(char \<Rightarrow> bool) \<Rightarrow> mstate \<Rightarrow> mstate list" where
  \<comment> \<open>the ways to consume characters of a class, the longest first\<close>
  "greedy P (p, [], c) = [(p, [], c)]"
| "greedy P (p, x # xs, c) =
     (if P x then greedy P (Some x, xs, c) @ [(p, x # xs, c)] else [(p, x # xs, c)])"

fun ms :: "bool \<Rightarrow> rx \<Rightarrow> mstate \<Rightarrow> mstate list" where
  "ms ml (Cls P) (p, s, c) =
     (case s of [] \<Rightarrow> [] | x # xs \<Rightarrow> if P x then [(Some x, xs, c)] else [])"
| "ms ml (Star P) st = greedy P st"
| "ms ml (Plus P) (p, s, c) =
     (case s of [] \<Rightarrow> [] | x # xs \<Rightarrow> if P x then greedy P (Some x, xs, c) else [])"
| "ms ml (Opt r) st = ms ml r st @ [st]"
| "ms ml (Cat r1 r2) st = concat (map (ms ml r2) (ms ml r1 st))"
| "ms ml (Grp n r) (p, s, c) =
     map (\<lambda>(p', s', c'). (p', s', c'(n \<mapsto> take (length s - length s') s)))
       (ms ml r (p, s, c))"
| "ms ml Bol (p, s, c) =
     (if (case p of None \<Rightarrow> True | Some x \<Rightarrow> ml \<and> line_terminator x)
      then [(p, s, c)] else [])"
| "ms ml Eol (p, s, c) =
     (if (case s of [] \<Rightarrow> True | x # _ \<Rightarrow> ml \<and> line_terminator x)
      then [(p, s, c)] else [])"

text \<open>
  The search for the leftmost match: at each position from the start position to the end
  of the input (the end included), the first way the expression matches there. The
  result is the rest of the input at the start of the match and the final state.
\<close>

fun search :: "bool \<Rightarrow> rx \<Rightarrow> char option \<Rightarrow> string \<Rightarrow> (string \<times> mstate) option" where
  "search ml r p [] =
     (case ms ml r (p, [], Map.empty) of [] \<Rightarrow> None | st # _ \<Rightarrow> Some ([], st))"
| "search ml r p (x # xs) =
     (case ms ml r (p, x # xs, Map.empty) of
        [] \<Rightarrow> search ml r (Some x) xs
      | st # _ \<Rightarrow> Some (x # xs, st))"

definition match_array :: "string \<times> mstate \<Rightarrow> caps" where
  \<comment> \<open>the match array: index 0 the matched text, index \<open>n\<close> the capture of group \<open>n\<close>
      (absent when the group took no part)\<close>
  "match_array r =
     (case r of (s0, p, s1, c) \<Rightarrow> c(0 \<mapsto> take (length s0 - length s1) s0))"

definition str_match :: "string option \<Rightarrow> rx \<Rightarrow> error + caps option" where
  \<comment> \<open>\<^verbatim>\<open>str.match(re)\<close> for an expression without flags; a \<^verbatim>\<open>null\<close> receiver throws\<close>
  "str_match str r =
     (case str of
        None \<Rightarrow> Inl TypeError
      | Some s \<Rightarrow> Inr (map_option match_array (search False r None s)))"

definition exec_global :: "rx \<Rightarrow> string \<Rightarrow> nat \<Rightarrow> caps option \<times> nat" where
  \<comment> \<open>\<^verbatim>\<open>re.exec(text)\<close> for an expression with the flags \<^verbatim>\<open>mg\<close>: the search starts at
      \<^verbatim>\<open>lastIndex\<close>; the result is the match array or \<^verbatim>\<open>null\<close>, and the new
      \<^verbatim>\<open>lastIndex\<close> (the end of the match, or 0 after a failure)\<close>
  "exec_global r text lastIndex =
     (if length text < lastIndex then (None, 0)
      else
        (case search True r
                (if lastIndex = 0 then None else Some (text ! (lastIndex - 1)))
                (drop lastIndex text) of
           None \<Rightarrow> (None, 0)
         | Some (s0, p, s1, c) \<Rightarrow>
             (Some (match_array (s0, p, s1, c)), length text - length s1)))"

subsection \<open>The expressions of the module\<close>

definition SshProtocolMatcher :: rx where
  \<comment> \<open>\<^verbatim>\<open>/^([^@:]+@)?([^:]+):/\<close>\<close>
  "SshProtocolMatcher =
     seq [Bol,
          Opt (Grp 1 (seq [Plus (none_of ''@:''), Cls (lit CHR ''@'')])),
          Grp 2 (Plus (none_of '':'')),
          Cls (lit CHR '':'')]"

definition SshUrlMatcher :: rx where
  \<comment> \<open>\<^verbatim>\<open>/^([^@:]+@)?([^:]+):(.+)$/\<close>\<close>
  "SshUrlMatcher =
     seq [Bol,
          Opt (Grp 1 (seq [Plus (none_of ''@:''), Cls (lit CHR ''@'')])),
          Grp 2 (Plus (none_of '':'')),
          Cls (lit CHR '':''),
          Grp 3 (Plus any_char),
          Eol]"

definition AuthorityMatcher :: rx where
  \<comment> \<open>\<^verbatim>\<open>/^([^@]+@)?([^:]+)(:\d+)?$/\<close>\<close>
  "AuthorityMatcher =
     seq [Bol,
          Opt (Grp 1 (seq [Plus (none_of ''@''), Cls (lit CHR ''@'')])),
          Grp 2 (Plus (none_of '':'')),
          Opt (Grp 3 (seq [Cls (lit CHR '':''), Plus digit])),
          Eol]"

definition SecondLevelDomainMatcher :: rx where
  \<comment> \<open>\<^verbatim>\<open>/([^@:.]+\.[^@:.]+)(:\d+)?$/\<close>\<close>
  "SecondLevelDomainMatcher =
     seq [Grp 1 (seq [Plus (none_of ''@:.''), Cls (lit CHR ''.''), Plus (none_of ''@:.'')]),
          Opt (Grp 2 (seq [Cls (lit CHR '':''), Plus digit])),
          Eol]"

definition RemoteMatcher :: rx where
  \<comment> \<open>\<^verbatim>\<open>/^\s*url\s*=\s*(.+\S)\s*$/mg\<close>\<close>
  "RemoteMatcher =
     seq [Bol, Star white_space,
          Cls (lit CHR ''u''), Cls (lit CHR ''r''), Cls (lit CHR ''l''),
          Star white_space, Cls (lit CHR ''=''), Star white_space,
          Grp 1 (seq [Plus any_char, Cls non_space]),
          Star white_space, Eol]"

definition AnyButDot :: "char \<Rightarrow> bool" where
  \<comment> \<open>\<^verbatim>\<open>/[^.]/g\<close>, used only to replace each match by one character\<close>
  "AnyButDot = none_of ''.''"

definition replace_each :: "(char \<Rightarrow> bool) \<Rightarrow> char \<Rightarrow> string \<Rightarrow> string" where
  \<comment> \<open>\<^verbatim>\<open>s.replace(cls, ch)\<close> for a global one-character class\<close>
  "replace_each cls a s = map (\<lambda>ch. if cls ch then a else ch) s"

section \<open>Collaborators that are not part of the sources\<close>

record uri =
  scheme :: string
  authority :: string
  path :: string
  query :: string
  fragment :: string

text \<open>
  \<^verbatim>\<open>URI.parse\<close> is a parameter of the model: a function from the text to the parsed
  value, or to the exception it throws. \<^verbatim>\<open>sha1\<close> stands for
  \<^verbatim>\<open>crypto.createHash('sha1').update(r).digest('hex')\<close>, a parameter as well.
\<close>

type_synonym parser = "string \<Rightarrow> error + uri"

definition UriPattern :: rx where
  \<comment> \<open>\<^verbatim>\<open>^(([^:/?#]+):)?(//([^/?#]*))?([^?#]*)(\?([^#]*))?(#(.*))?\<close>\<close>
  "UriPattern =
     seq [Bol,
          Opt (Grp 1 (seq [Grp 2 (Plus (none_of '':/?#'')), Cls (lit CHR '':'')])),
          Opt (Grp 3 (seq [Cls (lit CHR ''/''), Cls (lit CHR ''/''),
                           Grp 4 (Star (none_of ''/?#''))])),
          Grp 5 (Star (none_of ''?#'')),
          Opt (Grp 6 (seq [Cls (lit CHR ''?''), Grp 7 (Star (none_of ''#''))])),
          Opt (Grp 8 (seq [Cls (lit CHR ''#''), Grp 9 (Star any_char)]))]"

definition or_empty :: "string option \<Rightarrow> string" where
  "or_empty v = (case v of None \<Rightarrow> [] | Some s \<Rightarrow> s)"

definition uri_parse :: parser where
  \<comment> \<open>Modelled from the spec: \<^verbatim>\<open>URI.parse\<close> of \<^verbatim>\<open>vs/base/common/uri\<close> is imported and
      not part of the sources; the spec says a generic URI is "parsed per standard URI
      syntax", with an authority and a path component. This is the component split of
      the standard (RFC 3986, appendix B): scheme, authority, path, query, fragment.\<close>
  "uri_parse v =
     (case search False UriPattern None v of
        None \<Rightarrow> Inr \<lparr>scheme = [], authority = [], path = [], query = [], fragment = []\<rparr>
      | Some r \<Rightarrow>
          (let m = match_array r in
           Inr \<lparr>scheme = or_empty (m 2), authority = or_empty (m 4), path = or_empty (m 5),
                query = or_empty (m 7), fragment = or_empty (m 9)\<rparr>))"

record content =
  "value" :: string

text \<open>
  The file service: a promise that is rejected is the left summand, a promise that is
  fulfilled the right one.
\<close>

record 'stat fileService =
  resolveFile :: "uri \<Rightarrow> error + 'stat"
  resolveContent :: "uri \<Rightarrow> bool \<Rightarrow> error + content"

section \<open>Domains of the remotes\<close>

definition stripLowLevelDomains :: "string option \<Rightarrow> error + string option" where
  "stripLowLevelDomains domain =
     (case str_match domain SecondLevelDomainMatcher of
        Inl e \<Rightarrow> Inl e
      | Inr None \<Rightarrow> Inr None
      | Inr (Some m) \<Rightarrow> Inr (m 1))"

definition extractDomain_try :: "parser \<Rightarrow> string \<Rightarrow> error + string option option" where
  \<comment> \<open>the body of the \<^verbatim>\<open>try\<close> block: \<open>Some\<close> is a value returned from inside it\<close>
  "extractDomain_try parse url =
     (case parse url of
        Inl e \<Rightarrow> Inl e
      | Inr u \<Rightarrow>
          if authority u \<noteq> [] then
            (case stripLowLevelDomains (Some (authority u)) of
               Inl e \<Rightarrow> Inl e
             | Inr d \<Rightarrow> Inr (Some d))
          else Inr None)"

definition extractDomain :: "parser \<Rightarrow> string option \<Rightarrow> error + string option" where
  "extractDomain parse url =
     (case url of
        None \<Rightarrow> Inl TypeError
      | Some u \<Rightarrow>
          if indexOf u ''://'' = - 1 then
            (case str_match (Some u) SshProtocolMatcher of
               Inl e \<Rightarrow> Inl e
             | Inr (Some m) \<Rightarrow> stripLowLevelDomains (m 2)
             | Inr None \<Rightarrow> Inr None)
          else
            (case extractDomain_try parse u of
               Inl e \<Rightarrow> Inr None  \<comment> \<open>ignore invalid URIs\<close>
             | Inr (Some d) \<Rightarrow> Inr d
             | Inr None \<Rightarrow> Inr None))"

section \<open>Remotes\<close>

definition stripPort :: "string option \<Rightarrow> error + string option" where
  "stripPort auth =
     (case str_match auth AuthorityMatcher of
        Inl e \<Rightarrow> Inl e
      | Inr None \<Rightarrow> Inr None
      | Inr (Some m) \<Rightarrow> Inr (m 2))"

definition normalizeRemote :: "string option \<Rightarrow> string option \<Rightarrow> bool \<Rightarrow> string option" where
  "normalizeRemote host pth stripEndingDotGit =
     (case (host, pth) of
        (Some h, Some p) \<Rightarrow>
          if h \<noteq> [] \<and> p \<noteq> [] then
            (let p' = (if stripEndingDotGit \<and> endsWith p ''.git''
                       then substr p 0 (length p - 4) else p)
             in Some (if indexOf p' ''/'' = 0 then h @ p' else h @ ''/'' @ p'))
          else None
      | _ \<Rightarrow> None)"

definition extractRemote_try :: "parser \<Rightarrow> string \<Rightarrow> bool \<Rightarrow> error + string option option" where
  \<comment> \<open>the body of the \<^verbatim>\<open>try\<close> block: \<open>Some\<close> is a value returned from inside it\<close>
  "extractRemote_try parse url stripEndingDotGit =
     (case parse url of
        Inl e \<Rightarrow> Inl e
      | Inr u \<Rightarrow>
          if authority u \<noteq> [] then
            (case stripPort (Some (authority u)) of
               Inl e \<Rightarrow> Inl e
             | Inr h \<Rightarrow> Inr (Some (normalizeRemote h (Some (path u)) stripEndingDotGit)))
          else Inr None)"

definition extractRemote :: "parser \<Rightarrow> string option \<Rightarrow> bool \<Rightarrow> error + string option" where
  "extractRemote parse url stripEndingDotGit =
     (case url of
        None \<Rightarrow> Inl TypeError
      | Some u \<Rightarrow>
          (case (if indexOf u ''://'' = - 1 then str_match (Some u) SshUrlMatcher
                 else Inr None) of
             Inl e \<Rightarrow> Inl e
           | Inr (Some m) \<Rightarrow> Inr (normalizeRemote (m 2) (m 3) stripEndingDotGit)
           | Inr None \<Rightarrow>
               (case extractRemote_try parse u stripEndingDotGit of
                  Inl e \<Rightarrow> Inr None  \<comment> \<open>ignore invalid URIs\<close>
                | Inr (Some r) \<Rightarrow> Inr r
                | Inr None \<Rightarrow> Inr None)))"

section \<open>The scanning loops\<close>

text \<open>
  \<^verbatim>\<open>RemoteMatcher\<close> is one object of the module with the flag \<^verbatim>\<open>g\<close>: its
  \<^verbatim>\<open>lastIndex\<close> is state that outlives a call. Each function that scans takes the
  \<^verbatim>\<open>lastIndex\<close> it finds and returns the one it leaves, together with its result or
  the exception that leaves it.
\<close>

function getRemotes_loop ::
  "parser \<Rightarrow> string \<Rightarrow> bool \<Rightarrow> string list \<Rightarrow> nat \<Rightarrow> (error + string list) \<times> nat" where
  "getRemotes_loop parse text stripEndingDotGit remotes lastIndex =
     (case exec_global RemoteMatcher text lastIndex of
        (None, li) \<Rightarrow> (Inr remotes, li)
      | (Some m, li) \<Rightarrow>
          (case extractRemote parse (m 1) stripEndingDotGit of
             Inl e \<Rightarrow> (Inl e, li)
           | Inr remote \<Rightarrow>
               getRemotes_loop parse text stripEndingDotGit
                 (case remote of
                    None \<Rightarrow> remotes
                  | Some r \<Rightarrow> if r \<noteq> [] then remotes @ [r] else remotes)
                 li))"
  by pat_completeness auto
definition getRemotes ::
  "parser \<Rightarrow> string \<Rightarrow> bool \<Rightarrow> nat \<Rightarrow> (error + string list) \<times> nat" where
  "getRemotes parse text stripEndingDotGit lastIndex =
     getRemotes_loop parse text stripEndingDotGit [] lastIndex"

definition getHashedRemotesFromConfig ::
  "(string \<Rightarrow> string) \<Rightarrow> parser \<Rightarrow> string \<Rightarrow> bool \<Rightarrow> nat \<Rightarrow> (error + string list) \<times> nat" where
  "getHashedRemotesFromConfig sha1 parse text stripEndingDotGit lastIndex =
     (case getRemotes parse text stripEndingDotGit lastIndex of
        (Inl e, li) \<Rightarrow> (Inl e, li)
      | (Inr remotes, li) \<Rightarrow> (Inr (map sha1 remotes), li))"

definition Set_add :: "string \<Rightarrow> string list \<Rightarrow> string list" where
  \<comment> \<open>\<^verbatim>\<open>Set.add\<close>: a set keeps its elements in the order of their first insertion\<close>
  "Set_add e es = (if e \<in> set es then es else es @ [e])"

function getDomainsOfRemotes_loop ::
  "parser \<Rightarrow> string \<Rightarrow> string list \<Rightarrow> nat \<Rightarrow> (error + string list) \<times> nat" where
  "getDomainsOfRemotes_loop parse text domains lastIndex =
     (case exec_global RemoteMatcher text lastIndex of
        (None, li) \<Rightarrow> (Inr domains, li)
      | (Some m, li) \<Rightarrow>
          (case extractDomain parse (m 1) of
             Inl e \<Rightarrow> (Inl e, li)
           | Inr domain \<Rightarrow>
               getDomainsOfRemotes_loop parse text
                 (case domain of
                    None \<Rightarrow> domains
                  | Some d \<Rightarrow> if d \<noteq> [] then Set_add d domains else domains)
                 li))"
  by pat_completeness auto
definition redact :: "string list \<Rightarrow> string \<Rightarrow> string" where
  \<comment> \<open>the function mapped over the elements: \<^verbatim>\<open>whitemap\<close> is built from the whitelist
      by \<^verbatim>\<open>reduce\<close> on an object without prototype\<close>
  "redact whitelist key =
     (let whitemap = foldl (\<lambda>map k. map(k \<mapsto> True)) Map.empty whitelist
      in if whitemap key = Some True then key else replace_each AnyButDot CHR ''a'' key)"

definition getDomainsOfRemotes ::
  "parser \<Rightarrow> string \<Rightarrow> string list \<Rightarrow> nat \<Rightarrow> (error + string list) \<times> nat" where
  "getDomainsOfRemotes parse text whitelist lastIndex =
     (case getDomainsOfRemotes_loop parse text [] lastIndex of
        (Inl e, li) \<Rightarrow> (Inl e, li)
      | (Inr domains, li) \<Rightarrow>
          (let elements = foldl (\<lambda>els e. els @ [e]) [] domains
           in (Inr (map (redact whitelist) elements), li)))"

definition getHashedRemotesFromUri ::
  "(string \<Rightarrow> string) \<Rightarrow> parser \<Rightarrow> uri \<Rightarrow> 'stat fileService \<Rightarrow> bool \<Rightarrow> nat
     \<Rightarrow> (error + string list) \<times> nat" where
  \<comment> \<open>the promise returned: \<open>Inr\<close> the value it is fulfilled with, \<open>Inl\<close> the reason it
      is rejected with\<close>
  "getHashedRemotesFromUri sha1 parse workspaceUri fileService stripEndingDotGit lastIndex =
     (let pth = path workspaceUri;
          u = workspaceUri\<lparr>path := (if pth \<noteq> ''/'' then pth else []) @ ''/.git/config''\<rparr>
      in case resolveFile fileService u of
           Inl err \<Rightarrow> (Inr [], lastIndex)
         | Inr stat \<Rightarrow>
             (case resolveContent fileService u True of
                Inl err \<Rightarrow> (Inr [], lastIndex)  \<comment> \<open>ignore missing or binary file\<close>
              | Inr content \<Rightarrow>
                  getHashedRemotesFromConfig sha1 parse (value content) stripEndingDotGit
                    lastIndex))"

section \<open>The declarations of a text\<close>

text \<open>
  The specification's scanner: the values that follow \<^verbatim>\<open>url =\<close> in a text, in order of
  appearance, as the successive matches of \<^verbatim>\<open>RemoteMatcher\<close> give them; and what one
  declaration contributes to the remotes and to the domains: one entry, or nothing.
\<close>

function declarations_from :: "string \<Rightarrow> nat \<Rightarrow> string list" where
  "declarations_from text lastIndex =
     (case exec_global RemoteMatcher text lastIndex of
        (None, li) \<Rightarrow> []
      | (Some m, li) \<Rightarrow> (case m 1 of None \<Rightarrow> [] | Some v \<Rightarrow> [v]) @ declarations_from text li)"
  by pat_completeness auto

definition declarations :: "string \<Rightarrow> string list" where
  "declarations text = declarations_from text 0"

definition remote_of :: "parser \<Rightarrow> bool \<Rightarrow> string \<Rightarrow> string list" where
  "remote_of parse stripEndingDotGit v =
     (case extractRemote parse (Some v) stripEndingDotGit of
        Inr (Some r) \<Rightarrow> if r \<noteq> [] then [r] else []
      | _ \<Rightarrow> [])"

definition domain_of :: "parser \<Rightarrow> string \<Rightarrow> string list" where
  "domain_of parse v =
     (case extractDomain parse (Some v) of
        Inr (Some d) \<Rightarrow> if d \<noteq> [] then [d] else []
      | _ \<Rightarrow> [])"

section \<open>Lines, keys and entries, in the words of the specification\<close>






text \<open>
  The collection of the domains: each domain once, in the order of first appearance. An
  entry of the output: the domain itself when the whitelist has it, otherwise the domain
  with every character but the dot replaced by \<^verbatim>\<open>a\<close>.
\<close>

definition first_occurrences :: "'a list \<Rightarrow> 'a list" where
  \<comment> \<open>"a duplicate-free set", in "order of first appearance": of the occurrences of an
      element, the first is kept\<close>
  "first_occurrences xs = rev (remdups (rev xs))"

definition redacted_form :: "string \<Rightarrow> string" where
  \<comment> \<open>"replace every character except \<^verbatim>\<open>.\<close> with the literal character \<^verbatim>\<open>a\<close>"\<close>
  "redacted_form d = map (\<lambda>ch. if ch = CHR ''.'' then CHR ''.'' else CHR ''a'') d"

definition output_entry :: "string list \<Rightarrow> string \<Rightarrow> string" where
  \<comment> \<open>"if it is exactly present in whitelist keep it unchanged, otherwise" redact it\<close>
  "output_entry whitelist d = (if d \<in> set whitelist then d else redacted_form d)"

section \<open>What every match has\<close>

text \<open>
  Two measures of an expression: the least number of characters a match consumes, and
  the groups that take part in every match.
\<close>

fun minlen :: "rx \<Rightarrow> nat" where
  "minlen (Cls P) = 1"
| "minlen (Star P) = 0"
| "minlen (Plus P) = 1"
| "minlen (Opt r) = 0"
| "minlen (Cat r1 r2) = minlen r1 + minlen r2"
| "minlen (Grp n r) = minlen r"
| "minlen Bol = 0"
| "minlen Eol = 0"

fun sure :: "rx \<Rightarrow> nat set" where
  "sure (Cat r1 r2) = sure r1 \<union> sure r2"
| "sure (Grp n r) = insert n (sure r)"
| "sure _ = {}"






lemma greedy_result:
  "(p', s', c') \<in> set (greedy P (p, s, c)) \<Longrightarrow> length s' \<le> length s \<and> c' = c"
  by (induction s arbitrary: p) (fastforce split: if_splits)+

lemma ms_length:
  "(p', s', c') \<in> set (ms ml r (p, s, c)) \<Longrightarrow> length s' + minlen r \<le> length s"
proof (induction r arbitrary: p s c p' s' c')
  case (Cls P)
  then show ?case by (auto split: list.splits if_splits)
next
  case (Star P)
  then show ?case by (auto dest: greedy_result)
next
  case (Plus P)
  then show ?case by (auto split: list.splits if_splits dest: greedy_result)
next
  case (Opt r)
  then show ?case by fastforce
next
  case (Cat r1 r2)
  from Cat.prems obtain p1 s1 c1 where
    a: "(p1, s1, c1) \<in> set (ms ml r1 (p, s, c))" and b: "(p', s', c') \<in> set (ms ml r2 (p1, s1, c1))"
    by auto
  from Cat.IH(1)[OF a] Cat.IH(2)[OF b] show ?case by simp
next
  case (Grp n r)
  then show ?case by fastforce
next
  case Bol
  then show ?case by (auto split: if_splits)
next
  case Eol
  then show ?case by (auto split: if_splits)
qed

lemma ms_caps:
  "(p', s', c') \<in> set (ms ml r (p, s, c)) \<Longrightarrow> dom c \<union> sure r \<subseteq> dom c'"
proof (induction r arbitrary: p s c p' s' c')
  case (Cls P)
  then show ?case by (auto split: list.splits if_splits)
next
  case (Star P)
  then show ?case by (auto dest: greedy_result)
next
  case (Plus P)
  then show ?case by (auto split: list.splits if_splits dest: greedy_result)
next
  case (Opt r)
  then show ?case by fastforce
next
  case (Cat r1 r2)
  from Cat.prems obtain p1 s1 c1 where
    a: "(p1, s1, c1) \<in> set (ms ml r1 (p, s, c))" and b: "(p', s', c') \<in> set (ms ml r2 (p1, s1, c1))"
    by auto
  have "sure (Cat r1 r2) = sure r1 \<union> sure r2" by simp
  with Cat.IH(1)[OF a] Cat.IH(2)[OF b] show ?case by blast
next
  case (Grp n r)
  from Grp.prems obtain c1 where
    a: "(p', s', c1) \<in> set (ms ml r (p, s, c))" and b: "c' = c1(n \<mapsto> take (length s - length s') s)"
    by auto
  from Grp.IH[OF a] b show ?case by auto
next
  case Bol
  then show ?case by (auto split: if_splits)
next
  case Eol
  then show ?case by (auto split: if_splits)
qed

lemma search_result:
  "search ml r p s = Some (s0, p', s1, c) \<Longrightarrow>
     length s0 \<le> length s \<and> length s1 + minlen r \<le> length s0 \<and> sure r \<subseteq> dom c"
proof (induction s arbitrary: p)
  case Nil
  then obtain rest where "ms ml r (p, [], Map.empty) = (p', s1, c) # rest" and "s0 = []"
    by (auto split: list.splits)
  then have "(p', s1, c) \<in> set (ms ml r (p, s0, Map.empty))" by simp
  from ms_length[OF this] ms_caps[OF this] \<open>s0 = []\<close> show ?case by simp
next
  case (Cons x xs)
  show ?case
  proof (cases "ms ml r (p, x # xs, Map.empty)")
    case Nil
    with Cons.prems have "search ml r (Some x) xs = Some (s0, p', s1, c)" by simp
    from Cons.IH[OF this] show ?thesis by simp
  next
    case (Cons st rest)
    with Cons.prems have "s0 = x # xs" and "st = (p', s1, c)" by auto
    with Cons have "(p', s1, c) \<in> set (ms ml r (p, s0, Map.empty))" by simp
    from ms_length[OF this] ms_caps[OF this] \<open>s0 = x # xs\<close> show ?thesis by simp
  qed
qed

lemma exec_global_None: "exec_global r text li = (None, li') \<Longrightarrow> li' = 0"
  by (auto simp: exec_global_def split: if_splits option.splits)

lemma exec_global_Some:
  assumes "exec_global r text li = (Some m, li')"
  shows "li + minlen r \<le> li' \<and> li' \<le> length text \<and> sure r \<subseteq> dom m"
proof -
  from assms have le: "li \<le> length text"
    by (auto simp: exec_global_def split: if_splits)
  from assms le obtain s0 p s1 c where
    s: "search True r (if li = 0 then None else Some (text ! (li - 1))) (drop li text) = Some (s0, p, s1, c)"
    and m: "m = match_array (s0, p, s1, c)" and li': "li' = length text - length s1"
    by (auto simp: exec_global_def split: if_splits option.splits)
  from search_result[OF s] have "length s0 \<le> length text - li" "length s1 + minlen r \<le> length s0"
    "sure r \<subseteq> dom c" by simp_all
  with le m li' show ?thesis by (auto simp: match_array_def)
qed

lemma str_match_sure:
  "str_match (Some s) r = Inr (Some m) \<Longrightarrow> sure r \<subseteq> dom m"
proof -
  assume "str_match (Some s) r = Inr (Some m)"
  then obtain s0 p s1 c where
    "search False r None s = Some (s0, p, s1, c)" and "m = match_array (s0, p, s1, c)"
    by (auto simp: str_match_def)
  with search_result[of False r None s s0 p s1 c] show ?thesis
    by (auto simp: match_array_def)
qed

lemma minlen_RemoteMatcher: "minlen RemoteMatcher = 6"
  by (simp add: RemoteMatcher_def)

lemma sure_RemoteMatcher: "1 \<in> sure RemoteMatcher"
  by (simp add: RemoteMatcher_def)

lemma exec_RemoteMatcher_Some:
  assumes "exec_global RemoteMatcher text li = (Some m, li')"
  shows "li < li'" and "li' \<le> length text" and "\<exists>v. m 1 = Some v"
proof -
  from exec_global_Some[OF assms]
  have a: "li + minlen RemoteMatcher \<le> li'" and b: "li' \<le> length text"
    and c: "sure RemoteMatcher \<subseteq> dom m" by simp_all
  from a show "li < li'" by (simp add: minlen_RemoteMatcher)
  from b show "li' \<le> length text" .
  from c sure_RemoteMatcher show "\<exists>v. m 1 = Some v" by blast
qed

lemma exec_RemoteMatcher_progress:
  assumes "(Some m, li') = exec_global RemoteMatcher text li"
  shows "length text - li' < length text - li"
proof -
  from assms have "exec_global RemoteMatcher text li = (Some m, li')" by simp
  from exec_RemoteMatcher_Some(1,2)[OF this] show ?thesis by simp
qed

section \<open>The loops terminate\<close>

text \<open>
  A match of \<^verbatim>\<open>RemoteMatcher\<close> consumes at least six characters, so each turn of a
  loop moves \<^verbatim>\<open>lastIndex\<close> forward, within the text.
\<close>

termination getRemotes_loop
  by (relation "measure (\<lambda>(parse, text, strip, remotes, li). length text - li)")
     (auto intro: exec_RemoteMatcher_progress)

termination getDomainsOfRemotes_loop
  by (relation "measure (\<lambda>(parse, text, domains, li). length text - li)")
     (auto intro: exec_RemoteMatcher_progress)

termination declarations_from
  by (relation "measure (\<lambda>(text, li). length text - li)")
     (auto intro: exec_RemoteMatcher_progress)

declare getRemotes_loop.simps [simp del]
declare getDomainsOfRemotes_loop.simps [simp del]
declare declarations_from.simps [simp del]

section \<open>The loops read the declarations\<close>

lemma str_match_Some_Inr: "\<exists>m. str_match (Some s) r = Inr m"
  by (simp add: str_match_def)

lemma extractRemote_returns: "\<exists>r. extractRemote parse (Some u) strip = Inr r"
proof -
  obtain m where m: "str_match (Some u) SshUrlMatcher = Inr m"
    using str_match_Some_Inr by blast
  show ?thesis
    by (cases "extractRemote_try parse u strip")
       (auto simp: extractRemote_def m split: option.splits sum.splits)
qed

lemma stripLowLevelDomains_returns: "\<exists>d. stripLowLevelDomains (Some a) = Inr d"
  by (simp add: stripLowLevelDomains_def str_match_def split: option.splits)

lemma sure_SshProtocolMatcher: "2 \<in> sure SshProtocolMatcher"
  by (simp add: SshProtocolMatcher_def)

lemma extractDomain_returns: "\<exists>d. extractDomain parse (Some u) = Inr d"
proof (cases "indexOf u ''://'' = - 1")
  case True
  obtain m where m: "str_match (Some u) SshProtocolMatcher = Inr m"
    using str_match_Some_Inr by blast
  show ?thesis
  proof (cases m)
    case None
    with True m show ?thesis by (simp add: extractDomain_def)
  next
    case (Some a)
    with m str_match_sure[of u SshProtocolMatcher a] sure_SshProtocolMatcher
    obtain h where "a 2 = Some h" by blast
    with True m Some stripLowLevelDomains_returns[of h] show ?thesis
      by (auto simp: extractDomain_def)
  qed
next
  case False
  then show ?thesis
    by (cases "extractDomain_try parse u") (auto simp: extractDomain_def split: option.splits)
qed

lemma getRemotes_loop_eq:
  "getRemotes_loop parse cfg strip remotes li =
     (Inr (remotes @ concat (map (remote_of parse strip) (declarations_from cfg li))), 0)"
proof (induction parse cfg strip remotes li rule: getRemotes_loop.induct)
  case (1 parse cfg strip remotes li)
  obtain a li' where e: "exec_global RemoteMatcher cfg li = (a, li')"
    by (cases "exec_global RemoteMatcher cfg li")
  show ?case
  proof (cases a)
    case None
    with e exec_global_None[of RemoteMatcher cfg li li'] show ?thesis
      by (simp add: getRemotes_loop.simps[of parse cfg strip remotes li]
            declarations_from.simps[of cfg li])
  next
    case (Some m)
    with e exec_RemoteMatcher_Some(3)[of cfg li m li'] obtain v where v: "m 1 = Some v"
      by blast
    obtain r where r: "extractRemote parse (Some v) strip = Inr r"
      using extractRemote_returns by blast
    from e Some v r
    have ih: "getRemotes_loop parse cfg strip
        (case r of None \<Rightarrow> remotes | Some x \<Rightarrow> if x \<noteq> [] then remotes @ [x] else remotes) li' =
      (Inr ((case r of None \<Rightarrow> remotes | Some x \<Rightarrow> if x \<noteq> [] then remotes @ [x] else remotes) @
         concat (map (remote_of parse strip) (declarations_from cfg li'))), 0)"
      using "1.IH" by simp
    from r have ro: "remote_of parse strip v =
        (case r of None \<Rightarrow> [] | Some x \<Rightarrow> if x \<noteq> [] then [x] else [])"
      by (simp add: remote_of_def)
    from e Some v r ih ro show ?thesis
      by (simp add: getRemotes_loop.simps[of parse cfg strip remotes li]
            declarations_from.simps[of cfg li] split: option.splits)
  qed
qed

lemma getDomainsOfRemotes_loop_eq:
  "getDomainsOfRemotes_loop parse cfg domains li =
     (Inr (foldl (\<lambda>ds d. Set_add d ds) domains
            (concat (map (domain_of parse) (declarations_from cfg li)))), 0)"
proof (induction parse cfg domains li rule: getDomainsOfRemotes_loop.induct)
  case (1 parse cfg domains li)
  obtain a li' where e: "exec_global RemoteMatcher cfg li = (a, li')"
    by (cases "exec_global RemoteMatcher cfg li")
  show ?case
  proof (cases a)
    case None
    with e exec_global_None[of RemoteMatcher cfg li li'] show ?thesis
      by (simp add: getDomainsOfRemotes_loop.simps[of parse cfg domains li]
            declarations_from.simps[of cfg li])
  next
    case (Some m)
    with e exec_RemoteMatcher_Some(3)[of cfg li m li'] obtain v where v: "m 1 = Some v"
      by blast
    obtain d where d: "extractDomain parse (Some v) = Inr d"
      using extractDomain_returns by blast
    from e Some v d
    have ih: "getDomainsOfRemotes_loop parse cfg
        (case d of None \<Rightarrow> domains | Some x \<Rightarrow> if x \<noteq> [] then Set_add x domains else domains) li' =
      (Inr (foldl (\<lambda>ds d. Set_add d ds)
         (case d of None \<Rightarrow> domains | Some x \<Rightarrow> if x \<noteq> [] then Set_add x domains else domains)
         (concat (map (domain_of parse) (declarations_from cfg li')))), 0)"
      using "1.IH" by simp
    from d have dof: "domain_of parse v =
        (case d of None \<Rightarrow> [] | Some x \<Rightarrow> if x \<noteq> [] then [x] else [])"
      by (simp add: domain_of_def)
    from e Some v d ih dof show ?thesis
      by (simp add: getDomainsOfRemotes_loop.simps[of parse cfg domains li]
            declarations_from.simps[of cfg li] split: option.splits)
  qed
qed

lemma foldl_push: "foldl (\<lambda>els e. els @ [e]) acc ds = acc @ ds"
  by (induction ds arbitrary: acc) simp_all

lemma getRemotes_eq:
  "getRemotes parse cfg strip li =
     (Inr (concat (map (remote_of parse strip) (declarations_from cfg li))), 0)"
  by (simp add: getRemotes_def getRemotes_loop_eq)

lemma getHashedRemotesFromConfig_eq:
  "getHashedRemotesFromConfig sha1 parse cfg strip li =
     (Inr (map sha1 (concat (map (remote_of parse strip) (declarations_from cfg li)))), 0)"
  by (simp add: getHashedRemotesFromConfig_def getRemotes_eq)

lemma getDomainsOfRemotes_eq:
  "getDomainsOfRemotes parse cfg whitelist li =
     (Inr (map (redact whitelist)
        (foldl (\<lambda>ds d. Set_add d ds) []
           (concat (map (domain_of parse) (declarations_from cfg li))))), 0)"
  by (simp add: getDomainsOfRemotes_def getDomainsOfRemotes_loop_eq foldl_push)

section \<open>Collections of domains and entries of remotes\<close>

lemma foldl_Set_add_distinct:
  "distinct acc \<Longrightarrow> distinct (foldl (\<lambda>ds d. Set_add d ds) acc xs)"
  by (induction xs arbitrary: acc) (simp_all add: Set_add_def)

lemma foldl_Set_add_set:
  "set (foldl (\<lambda>ds d. Set_add d ds) acc xs) = set acc \<union> set xs"
  by (induction xs arbitrary: acc) (auto simp: Set_add_def)

lemma remote_of_nonempty: "[] \<notin> set (remote_of parse strip v)"
  by (auto simp: remote_of_def split: sum.splits option.splits if_splits)

lemma domain_of_nonempty: "[] \<notin> set (domain_of parse v)"
  by (auto simp: domain_of_def split: sum.splits option.splits if_splits)

lemma length_redact: "length (redact whitelist key) = length key"
  by (simp add: redact_def replace_each_def Let_def)

lemma count_remote_of:
  "r \<noteq> [] \<Longrightarrow>
   count_list (concat (map (remote_of parse strip) vs)) r =
     length (filter (\<lambda>v. extractRemote parse (Some v) strip = Inr (Some r)) vs)"
  by (induction vs) (auto simp: remote_of_def split: sum.splits option.splits)

lemma domain_of_member:
  "v \<in> set vs \<Longrightarrow> extractDomain parse (Some v) = Inr (Some d) \<Longrightarrow> d \<noteq> [] \<Longrightarrow>
     d \<in> set (concat (map (domain_of parse) vs))"
  by (auto simp: domain_of_def intro!: bexI[of _ v])

lemma count_distinct_member: "distinct ds \<Longrightarrow> d \<in> set ds \<Longrightarrow> count_list ds d = 1"
  by (induction ds) auto

lemma whitemap_lookup:
  "foldl (\<lambda>map k. map(k \<mapsto> True)) m whitelist key =
     (if key \<in> set whitelist then Some True else m key)"
  by (induction whitelist arbitrary: m) auto

lemma redact_eq:
  "redact whitelist key =
     (if key \<in> set whitelist then key else map (\<lambda>ch. if ch = CHR ''.'' then ch else CHR ''a'') key)"
  by (auto simp: redact_def whitemap_lookup replace_each_def AnyButDot_def none_of_def Let_def)

lemma foldl_Set_add_same:
  "foldl (\<lambda>ds d. Set_add d ds) [d] (replicate n d) = [d]"
  by (induction n) (simp_all add: Set_add_def)

lemma foldl_Set_add_replicate:
  "0 < n \<longrightarrow> foldl (\<lambda>ds d. Set_add d ds) [] (replicate n d) = [d]"
proof (cases n)
  case 0
  then show ?thesis by simp
next
  case (Suc k)
  have "Set_add d [] = [d]" by (simp add: Set_add_def)
  with Suc show ?thesis by (simp add: foldl_Set_add_same)
qed

lemma domain_of_all:
  "\<forall>v \<in> set vs. extractDomain parse (Some v) = Inr (Some d) \<Longrightarrow> d \<noteq> [] \<Longrightarrow>
     concat (map (domain_of parse) vs) = replicate (length vs) d"
  by (induction vs) (simp_all add: domain_of_def)

section \<open>The shape of a match of the declaration pattern\<close>





























section \<open>A declaration lies on a line\<close>


















section \<open>The character before the start of the search\<close>











section \<open>Lines with the key in another case, and the line of a declaration\<close>













section \<open>The domains collected\<close>

lemma first_occurrences_snoc:
  "first_occurrences (xs @ [x]) = Set_add x (first_occurrences xs)"
  by (simp add: first_occurrences_def Set_add_def)

lemma foldl_Set_add_first_occurrences:
  "foldl (\<lambda>ds d. Set_add d ds) [] xs = first_occurrences xs"
proof (induction xs rule: rev_induct)
  case Nil
  show ?case by (simp add: first_occurrences_def)
next
  case (snoc x xs)
  then show ?case by (simp add: first_occurrences_snoc)
qed

lemma distinct_first_occurrences: "distinct (first_occurrences xs)"
  by (simp add: first_occurrences_def)

lemma set_first_occurrences: "set (first_occurrences xs) = set xs"
  by (simp add: first_occurrences_def)

lemma redact_output_entry: "redact whitelist = output_entry whitelist"
  by (rule ext) (auto simp: redact_eq output_entry_def redacted_form_def)

lemma output_entry_nonempty: "d \<noteq> [] \<Longrightarrow> output_entry whitelist d \<noteq> []"
  by (simp add: output_entry_def redacted_form_def)

lemma getDomainsOfRemotes_entries:
  "getDomainsOfRemotes parse cfg whitelist li =
     (Inr (map (output_entry whitelist)
        (first_occurrences (concat (map (domain_of parse) (declarations_from cfg li))))), 0)"
  by (simp add: getDomainsOfRemotes_eq foldl_Set_add_first_occurrences redact_output_entry)

lemma count_map_once:
  "distinct ds \<Longrightarrow> d \<in> set ds \<Longrightarrow> \<forall>d' \<in> set ds. f d' = f d \<longrightarrow> d' = d \<Longrightarrow>
     count_list (map f ds) (f d) = 1"
proof (induction ds)
  case Nil
  then show ?case by simp
next
  case (Cons a ds)
  show ?case
  proof (cases "a = d")
    case True
    with Cons.prems have "\<forall>d' \<in> set ds. f d' \<noteq> f d" by auto
    then have "f d \<notin> set (map f ds)" by auto
    then have "count_list (map f ds) (f d) = 0"
      by (simp add: count_list_0_iff)
    with True show ?thesis by simp
  next
    case False
    with Cons show ?thesis by auto
  qed
qed

lemma first_occurrences_replicate:
  "0 < n \<Longrightarrow> first_occurrences (replicate n (d :: string)) = [d]"
  using foldl_Set_add_replicate[of n d] by (simp add: foldl_Set_add_first_occurrences)




lemma set_domains:
  "set (concat (map (domain_of parse) vs)) =
     {d. d \<noteq> [] \<and> (\<exists>v \<in> set vs. extractDomain parse (Some v) = Inr (Some d))}"
  by (auto simp: domain_of_def split: sum.splits option.splits if_splits)

section \<open>The claims\<close>

text \<open>
  C1. The claim: on the text \<^verbatim>\<open>url = https://internal.example.com/repo\<close> with an empty
  whitelist, \<^verbatim>\<open>getDomainsOfRemotes\<close> returns the redacted form of the full host,
  \<^verbatim>\<open>aaaaaaaaaaaaaaa.aaaaaaa.aaa\<close>. It does not: \<^verbatim>\<open>stripLowLevelDomains\<close> keeps the last
  two labels of the authority before the redaction.
\<close>

theorem C1_counterexample:
  "getDomainsOfRemotes uri_parse ''url = https://internal.example.com/repo'' [] 0 \<noteq>
     (Inr [''aaaaaaaaaaaaaaa.aaaaaaa.aaa''], 0)"
  by code_simp

text \<open>
  C1, as amended. On that text and an empty whitelist, with every parser of URIs that
  reads the authority \<^verbatim>\<open>internal.example.com\<close> from the value,
  \<^verbatim>\<open>getDomainsOfRemotes\<close> returns the single entry \<^verbatim>\<open>aaaaaaa.aaa\<close>: the second-level
  domain \<^verbatim>\<open>example.com\<close> with every character but the dot replaced by \<^verbatim>\<open>a\<close>.
\<close>

theorem C1_second_level_domain_redacted:
  assumes "parse ''https://internal.example.com/repo'' = Inr u"
    and "authority u = ''internal.example.com''"
  shows "getDomainsOfRemotes parse ''url = https://internal.example.com/repo'' [] 0 =
           (Inr [''aaaaaaa.aaa''], 0)"
proof -
  have d: "declarations_from ''url = https://internal.example.com/repo'' 0 =
             [''https://internal.example.com/repo'']"
    by code_simp
  have i: "indexOf ''https://internal.example.com/repo'' ''://'' \<noteq> - 1"
    by code_simp
  have s: "stripLowLevelDomains (Some ''internal.example.com'') = Inr (Some ''example.com'')"
    by code_simp
  have dom: "domain_of parse ''https://internal.example.com/repo'' = [''example.com'']"
    using assms i s by (simp add: domain_of_def extractDomain_def extractDomain_try_def)
  have r: "redact [] ''example.com'' = ''aaaaaaa.aaa''"
    by code_simp
  show ?thesis
    by (simp add: getDomainsOfRemotes_eq d dom Set_add_def r)
qed

theorem C1_second_level_domain_redacted_witness:
  "uri_parse ''https://internal.example.com/repo'' =
     Inr \<lparr>scheme = ''https'', authority = ''internal.example.com'', path = ''/repo'',
          query = [], fragment = []\<rparr> \<and>
   getDomainsOfRemotes uri_parse ''url = https://internal.example.com/repo'' [] 0 =
     (Inr [''aaaaaaa.aaa''], 0)"
proof -
  have p: "uri_parse ''https://internal.example.com/repo'' =
     Inr \<lparr>scheme = ''https'', authority = ''internal.example.com'', path = ''/repo'',
          query = [], fragment = []\<rparr>"
    by code_simp
  from C1_second_level_domain_redacted[of uri_parse
      "\<lparr>scheme = ''https'', authority = ''internal.example.com'', path = ''/repo'',
          query = [], fragment = []\<rparr>"] p
  show ?thesis by simp
qed

text \<open>
  C2. \<^verbatim>\<open>getRemotes\<close> on the text \<^verbatim>\<open>url = git@github.com:org/repo.git\<close> returns
  \<^verbatim>\<open>github.com/org/repo\<close> when asked to strip the suffix \<^verbatim>\<open>.git\<close>, and
  \<^verbatim>\<open>github.com/org/repo.git\<close> when not. The value has no \<^verbatim>\<open>://\<close> and matches the
  SSH grammar, so the result is the same with every parser of URIs; \<^verbatim>\<open>lastIndex\<close>
  starts and ends at 0.
\<close>

theorem C2_getRemotes_git_suffix:
  "getRemotes parse ''url = git@github.com:org/repo.git'' True 0 =
     (Inr [''github.com/org/repo''], 0) \<and>
   getRemotes parse ''url = git@github.com:org/repo.git'' False 0 =
     (Inr [''github.com/org/repo.git''], 0)"
  by code_simp







text \<open>
  C5. Extraction never throws. For every text, every parser of URIs (one that throws
  included), every flag and every \<^verbatim>\<open>lastIndex\<close>, \<^verbatim>\<open>getRemotes\<close>,
  \<^verbatim>\<open>getHashedRemotesFromConfig\<close> and \<^verbatim>\<open>getDomainsOfRemotes\<close> return a sequence and
  leave \<^verbatim>\<open>lastIndex\<close> at 0. The sequences are made of what each declaration
  contributes, in order; a declaration for which \<^verbatim>\<open>extractRemote\<close> or
  \<^verbatim>\<open>extractDomain\<close> returns \<^verbatim>\<open>null\<close>, no grammar having matched its value,
  contributes nothing.
\<close>

theorem C5_extraction_never_throws:
  "getRemotes parse cfg strip li =
     (Inr (concat (map (remote_of parse strip) (declarations_from cfg li))), 0) \<and>
   getHashedRemotesFromConfig sha1 parse cfg strip li =
     (Inr (map sha1 (concat (map (remote_of parse strip) (declarations_from cfg li)))), 0) \<and>
   getDomainsOfRemotes parse cfg whitelist li =
     (Inr (map (redact whitelist)
        (foldl (\<lambda>ds d. Set_add d ds) []
           (concat (map (domain_of parse) (declarations_from cfg li))))), 0) \<and>
   (extractRemote parse (Some v) strip = Inr None \<longrightarrow> remote_of parse strip v = []) \<and>
   (extractDomain parse (Some v) = Inr None \<longrightarrow> domain_of parse v = [])"
  by (simp add: getRemotes_eq getHashedRemotesFromConfig_eq getDomainsOfRemotes_eq
      remote_of_def domain_of_def)

theorem C5_extraction_never_throws_witness:
  "declarations_from ''url = ::::'' 0 = [''::::''] \<and>
   extractRemote uri_parse (Some ''::::'') False = Inr None \<and>
   extractDomain uri_parse (Some ''::::'') = Inr None \<and>
   getRemotes uri_parse ''url = ::::'' False 0 = (Inr [], 0) \<and>
   getHashedRemotesFromConfig (\<lambda>r. r) uri_parse ''url = ::::'' False 0 = (Inr [], 0) \<and>
   getDomainsOfRemotes uri_parse ''url = ::::'' [] 0 = (Inr [], 0)"
proof -
  have d: "declarations_from ''url = ::::'' 0 = [''::::'']" by code_simp
  have r: "extractRemote uri_parse (Some ''::::'') False = Inr None" by code_simp
  have e: "extractDomain uri_parse (Some ''::::'') = Inr None" by code_simp
  from C5_extraction_never_throws[of uri_parse "''url = ::::''" False 0 "\<lambda>r. r" "[]" "''::::''"]
    d r e
  show ?thesis by simp
qed

text \<open>
  C6. The claim: when two or more declarations resolve to the same remote,
  \<^verbatim>\<open>getDomainsOfRemotes\<close> returns the domain exactly once, and \<^verbatim>\<open>getRemotes\<close> one entry
  for each declaration. With two declarations of \<^verbatim>\<open>git@foo.com:a\<close>, one of
  \<^verbatim>\<open>git@bar.org:b\<close> and an empty whitelist, the entry of \<^verbatim>\<open>foo.com\<close> is
  \<^verbatim>\<open>aaa.aaa\<close>, and the output has it twice: \<^verbatim>\<open>bar.org\<close> has the same entry.
\<close>

theorem C6_counterexample:
  "getRemotes uri_parse
     (''url = git@foo.com:a'' @ CHR 0x0A # ''url = git@foo.com:a'' @ CHR 0x0A # ''url = git@bar.org:b'')
     False 0 = (Inr [''foo.com/a'', ''foo.com/a'', ''bar.org/b''], 0) \<and>
   getDomainsOfRemotes uri_parse
     (''url = git@foo.com:a'' @ CHR 0x0A # ''url = git@foo.com:a'' @ CHR 0x0A # ''url = git@bar.org:b'')
     [] 0 = (Inr [''aaa.aaa'', ''aaa.aaa''], 0) \<and>
   count_list [''aaa.aaa'', ''aaa.aaa''] ''aaa.aaa'' \<noteq> 1"
  by code_simp

text \<open>
  C6, as amended. When two or more declarations of a text resolve to the same remote
  \<open>r\<close>, each with the domain \<open>d\<close>:
  \<^item> \<^verbatim>\<open>getRemotes\<close> returns what each declaration contributes, in order, and has \<open>r\<close>
    once for each of these declarations; \<^verbatim>\<open>getHashedRemotesFromConfig\<close> returns the
    digest of each of these entries;
  \<^item> \<^verbatim>\<open>getDomainsOfRemotes\<close> returns the entries (the domain if the whitelist has it,
    its redacted form otherwise) of the domains of the declarations, each domain taken
    once, in the order of first appearance; \<open>d\<close> is among them exactly once;
  \<^item> the entry of \<open>d\<close> occurs exactly once in the output when no other domain of the
    text has the same entry; it is the only entry when every declaration has the
    domain \<open>d\<close>.
\<close>

theorem C6_domain_entry_once_remotes_repeated:
  assumes "2 \<le> length (filter (\<lambda>v. extractRemote parse (Some v) strip = Inr (Some r))
                        (declarations cfg))"
    and "r \<noteq> []"
    and "\<forall>v \<in> set (declarations cfg).
           extractRemote parse (Some v) strip = Inr (Some r) \<longrightarrow>
           extractDomain parse (Some v) = Inr (Some d)"
    and "d \<noteq> []"
  shows "getRemotes parse cfg strip 0 =
           (Inr (concat (map (remote_of parse strip) (declarations cfg))), 0) \<and>
         count_list (concat (map (remote_of parse strip) (declarations cfg))) r =
           length (filter (\<lambda>v. extractRemote parse (Some v) strip = Inr (Some r))
                    (declarations cfg)) \<and>
         getHashedRemotesFromConfig sha1 parse cfg strip 0 =
           (Inr (map sha1 (concat (map (remote_of parse strip) (declarations cfg)))), 0) \<and>
         getDomainsOfRemotes parse cfg whitelist 0 =
           (Inr (map (output_entry whitelist)
              (first_occurrences (concat (map (domain_of parse) (declarations cfg))))), 0) \<and>
         count_list (first_occurrences (concat (map (domain_of parse) (declarations cfg)))) d = 1 \<and>
         ((\<forall>d' \<in> set (concat (map (domain_of parse) (declarations cfg))).
              output_entry whitelist d' = output_entry whitelist d \<longrightarrow> d' = d) \<longrightarrow>
            count_list
              (map (output_entry whitelist)
                (first_occurrences (concat (map (domain_of parse) (declarations cfg)))))
              (output_entry whitelist d) = 1) \<and>
         ((\<forall>v \<in> set (declarations cfg). extractDomain parse (Some v) = Inr (Some d)) \<longrightarrow>
            getDomainsOfRemotes parse cfg whitelist 0 = (Inr [output_entry whitelist d], 0))"
proof -
  let ?vs = "declarations cfg"
  let ?rs = "concat (map (remote_of parse strip) ?vs)"
  let ?ds = "first_occurrences (concat (map (domain_of parse) ?vs))"
  from assms(1) obtain v where v: "v \<in> set ?vs"
    and vr: "extractRemote parse (Some v) strip = Inr (Some r)"
    by (metis (mono_tags, lifting) filter_False length_0_conv not_numeral_le_zero)
  with assms(3) have "extractDomain parse (Some v) = Inr (Some d)" by blast
  from domain_of_member[OF v this assms(4)] have mem: "d \<in> set ?ds"
    by (simp add: set_first_occurrences)
  have dist: "distinct ?ds" by (rule distinct_first_occurrences)
  from dist mem have once: "count_list ?ds d = 1" by (rule count_distinct_member)
  have cnt: "count_list ?rs r =
      length (filter (\<lambda>v. extractRemote parse (Some v) strip = Inr (Some r)) ?vs)"
    using assms(2) by (rule count_remote_of)
  have coll: "(\<forall>d' \<in> set (concat (map (domain_of parse) ?vs)).
              output_entry whitelist d' = output_entry whitelist d \<longrightarrow> d' = d) \<longrightarrow>
            count_list (map (output_entry whitelist) ?ds) (output_entry whitelist d) = 1"
  proof
    assume "\<forall>d' \<in> set (concat (map (domain_of parse) ?vs)).
              output_entry whitelist d' = output_entry whitelist d \<longrightarrow> d' = d"
    then have "\<forall>d' \<in> set ?ds. output_entry whitelist d' = output_entry whitelist d \<longrightarrow> d' = d"
      by (simp only: set_first_occurrences)
    with dist mem show "count_list (map (output_entry whitelist) ?ds) (output_entry whitelist d) = 1"
      by (rule count_map_once)
  qed
  have all: "(\<forall>v \<in> set ?vs. extractDomain parse (Some v) = Inr (Some d)) \<longrightarrow>
            getDomainsOfRemotes parse cfg whitelist 0 = (Inr [output_entry whitelist d], 0)"
  proof
    assume "\<forall>v \<in> set ?vs. extractDomain parse (Some v) = Inr (Some d)"
    then have "concat (map (domain_of parse) ?vs) = replicate (length ?vs) d"
      using assms(4) by (rule domain_of_all)
    moreover from v have "0 < length ?vs" by (cases ?vs) auto
    ultimately have "?ds = [d]" by (simp add: first_occurrences_replicate)
    then show "getDomainsOfRemotes parse cfg whitelist 0 = (Inr [output_entry whitelist d], 0)"
      by (simp add: getDomainsOfRemotes_entries declarations_def)
  qed
  from once cnt coll all show ?thesis
    by (simp add: getRemotes_eq getHashedRemotesFromConfig_eq getDomainsOfRemotes_entries
        declarations_def)
qed

theorem C6_domain_entry_once_remotes_repeated_witness:
  "declarations
     (''url = git@foo.com:a'' @ CHR 0x0A # ''url = git@foo.com:a'' @ CHR 0x0A # ''url = git@bar.org:b'')
     = [''git@foo.com:a'', ''git@foo.com:a'', ''git@bar.org:b''] \<and>
   extractRemote uri_parse (Some ''git@foo.com:a'') False = Inr (Some ''foo.com/a'') \<and>
   extractDomain uri_parse (Some ''git@foo.com:a'') = Inr (Some ''foo.com'') \<and>
   getRemotes uri_parse
     (''url = git@foo.com:a'' @ CHR 0x0A # ''url = git@foo.com:a'' @ CHR 0x0A # ''url = git@bar.org:b'')
     False 0 = (Inr [''foo.com/a'', ''foo.com/a'', ''bar.org/b''], 0) \<and>
   count_list [''foo.com/a'', ''foo.com/a'', ''bar.org/b''] ''foo.com/a'' = 2 \<and>
   getDomainsOfRemotes uri_parse
     (''url = git@foo.com:a'' @ CHR 0x0A # ''url = git@foo.com:a'' @ CHR 0x0A # ''url = git@bar.org:b'')
     [''foo.com''] 0 = (Inr [''foo.com'', ''aaa.aaa''], 0) \<and>
   count_list [''foo.com'', ''aaa.aaa''] ''foo.com'' = 1"
proof -
  let ?cfg = "''url = git@foo.com:a'' @ CHR 0x0A # ''url = git@foo.com:a'' @ CHR 0x0A #
              ''url = git@bar.org:b''"
  have dcl: "declarations ?cfg = [''git@foo.com:a'', ''git@foo.com:a'', ''git@bar.org:b'']"
    by code_simp
  have r1: "extractRemote uri_parse (Some ''git@foo.com:a'') False = Inr (Some ''foo.com/a'')"
    by code_simp
  have r2: "extractRemote uri_parse (Some ''git@bar.org:b'') False = Inr (Some ''bar.org/b'')"
    by code_simp
  have e1: "extractDomain uri_parse (Some ''git@foo.com:a'') = Inr (Some ''foo.com'')"
    by code_simp
  have ro: "concat (map (remote_of uri_parse False)
      [''git@foo.com:a'', ''git@foo.com:a'', ''git@bar.org:b'']) =
      [''foo.com/a'', ''foo.com/a'', ''bar.org/b'']"
    by code_simp
  have en: "map (output_entry [''foo.com''])
      (first_occurrences (concat (map (domain_of uri_parse)
        [''git@foo.com:a'', ''git@foo.com:a'', ''git@bar.org:b'']))) = [''foo.com'', ''aaa.aaa'']"
    by code_simp
  have h1: "2 \<le> length (filter (\<lambda>v. extractRemote uri_parse (Some v) False = Inr (Some ''foo.com/a''))
      (declarations ?cfg))"
    by (simp only: dcl) (simp add: r1 r2)
  have h3: "\<forall>v \<in> set (declarations ?cfg).
      extractRemote uri_parse (Some v) False = Inr (Some ''foo.com/a'') \<longrightarrow>
      extractDomain uri_parse (Some v) = Inr (Some ''foo.com'')"
    by (simp only: dcl) (simp add: r1 r2 e1)
  from C6_domain_entry_once_remotes_repeated[of uri_parse False "''foo.com/a''" ?cfg "''foo.com''"
      "\<lambda>r. r" "[''foo.com'']", OF h1 _ h3]
  have a: "getRemotes uri_parse ?cfg False 0 =
      (Inr (concat (map (remote_of uri_parse False) (declarations ?cfg))), 0)"
    and b: "getDomainsOfRemotes uri_parse ?cfg [''foo.com''] 0 =
      (Inr (map (output_entry [''foo.com''])
        (first_occurrences (concat (map (domain_of uri_parse) (declarations ?cfg))))), 0)"
    by simp_all
  from a have a': "getRemotes uri_parse ?cfg False 0 =
      (Inr [''foo.com/a'', ''foo.com/a'', ''bar.org/b''], 0)"
    by (simp only: dcl ro)
  from b have b': "getDomainsOfRemotes uri_parse ?cfg [''foo.com''] 0 =
      (Inr [''foo.com'', ''aaa.aaa''], 0)"
    by (simp only: dcl en)
  have c: "count_list [''foo.com/a'', ''foo.com/a'', ''bar.org/b''] ''foo.com/a'' = 2"
    "count_list [''foo.com'', ''aaa.aaa''] ''foo.com'' = 1"
    by simp_all
  from dcl r1 e1 a' b' c show ?thesis by blast
qed

text \<open>
  C7. The claim: the output of \<^verbatim>\<open>getDomainsOfRemotes\<close> and the output of
  \<^verbatim>\<open>getHashedRemotesFromConfig\<close> have no duplicate and no empty entry. Two domains
  that are not in the whitelist and have the same shape give the same entry twice.
\<close>

theorem C7_counterexample:
  "getDomainsOfRemotes uri_parse (''url = git@foo.com:a'' @ [CHR 0x0A] @ ''url = git@bar.org:b'') [] 0
     = (Inr [''aaa.aaa'', ''aaa.aaa''], 0) \<and>
   \<not> distinct [''aaa.aaa'', ''aaa.aaa'']"
  by code_simp

text \<open>
  C7, as amended. \<^verbatim>\<open>getDomainsOfRemotes\<close> removes duplicates before it redacts: its
  output is the list of the entries (the domain if the whitelist has it, its redacted form
  otherwise) of the non-empty domains that the declarations of the text have, each domain
  taken once, in the order of first appearance; no entry is empty.
  \<^verbatim>\<open>getHashedRemotesFromConfig\<close> returns the digest of each entry of \<^verbatim>\<open>getRemotes\<close>,
  which has what each declaration contributes and no empty entry; duplicates stay, and
  no digest is empty when the hash function returns none.
\<close>

theorem C7_deduplication_before_redaction:
  "getDomainsOfRemotes parse cfg whitelist li =
     (Inr (map (output_entry whitelist)
        (first_occurrences (concat (map (domain_of parse) (declarations_from cfg li))))), 0) \<and>
   distinct (first_occurrences (concat (map (domain_of parse) (declarations_from cfg li)))) \<and>
   set (first_occurrences (concat (map (domain_of parse) (declarations_from cfg li)))) =
     {d. d \<noteq> [] \<and>
         (\<exists>v \<in> set (declarations_from cfg li). extractDomain parse (Some v) = Inr (Some d))} \<and>
   [] \<notin> set (map (output_entry whitelist)
        (first_occurrences (concat (map (domain_of parse) (declarations_from cfg li))))) \<and>
   getRemotes parse cfg strip li =
     (Inr (concat (map (remote_of parse strip) (declarations_from cfg li))), 0) \<and>
   [] \<notin> set (concat (map (remote_of parse strip) (declarations_from cfg li))) \<and>
   getHashedRemotesFromConfig sha1 parse cfg strip li =
     (Inr (map sha1 (concat (map (remote_of parse strip) (declarations_from cfg li)))), 0) \<and>
   ((\<forall>r. sha1 r \<noteq> []) \<longrightarrow>
      [] \<notin> set (map sha1 (concat (map (remote_of parse strip) (declarations_from cfg li)))))"
proof -
  let ?vs = "declarations_from cfg li"
  let ?rs = "concat (map (remote_of parse strip) ?vs)"
  let ?ds = "first_occurrences (concat (map (domain_of parse) ?vs))"
  have a: "distinct ?ds" by (rule distinct_first_occurrences)
  have s: "set ?ds = {d. d \<noteq> [] \<and> (\<exists>v \<in> set ?vs. extractDomain parse (Some v) = Inr (Some d))}"
    by (simp only: set_first_occurrences set_domains)
  from s have ne: "[] \<notin> set ?ds" by simp
  have b: "[] \<notin> set (map (output_entry whitelist) ?ds)"
  proof
    assume "[] \<in> set (map (output_entry whitelist) ?ds)"
    then obtain d0 where d0: "d0 \<in> set ?ds" and e: "[] = output_entry whitelist d0" by auto
    from d0 ne have "d0 \<noteq> []" by auto
    from output_entry_nonempty[OF this, of whitelist] e show False by simp
  qed
  have c: "[] \<notin> set ?rs" using remote_of_nonempty by auto
  have d: "(\<forall>r. sha1 r \<noteq> []) \<longrightarrow> [] \<notin> set (map sha1 ?rs)"
  proof (intro impI notI)
    assume h: "\<forall>r. sha1 r \<noteq> []" and "[] \<in> set (map sha1 ?rs)"
    then obtain x where "[] = sha1 x" by auto
    with h show False by metis
  qed
  have g1: "getDomainsOfRemotes parse cfg whitelist li = (Inr (map (output_entry whitelist) ?ds), 0)"
    by (rule getDomainsOfRemotes_entries)
  have g2: "getRemotes parse cfg strip li = (Inr ?rs, 0)"
    by (rule getRemotes_eq)
  have g3: "getHashedRemotesFromConfig sha1 parse cfg strip li = (Inr (map sha1 ?rs), 0)"
    by (rule getHashedRemotesFromConfig_eq)
  from g1 a s b g2 c g3 d show ?thesis
    by (intro conjI) assumption+
qed

theorem C7_deduplication_before_redaction_witness:
  "(\<forall>r. (\<lambda>r. ''da39a3ee5e6b4b0d3255bfef95601890afd80709'') r \<noteq> []) \<and>
   getDomainsOfRemotes uri_parse
     (''url = git@foo.com:a'' @ CHR 0x0A # ''url = git@foo.com:c'' @ CHR 0x0A #
      ''url = git@bar.org:b'') [] 0
     = (Inr [''aaa.aaa'', ''aaa.aaa''], 0) \<and>
   [] \<notin> set [''aaa.aaa'', ''aaa.aaa''] \<and>
   getRemotes uri_parse
     (''url = git@foo.com:a'' @ CHR 0x0A # ''url = git@foo.com:c'' @ CHR 0x0A #
      ''url = git@bar.org:b'') False 0
     = (Inr [''foo.com/a'', ''foo.com/c'', ''bar.org/b''], 0) \<and>
   getHashedRemotesFromConfig (\<lambda>r. ''da39a3ee5e6b4b0d3255bfef95601890afd80709'') uri_parse
     (''url = git@foo.com:a'' @ CHR 0x0A # ''url = git@foo.com:c'' @ CHR 0x0A #
      ''url = git@bar.org:b'') False 0
     = (Inr (map (\<lambda>r. ''da39a3ee5e6b4b0d3255bfef95601890afd80709'')
              [''foo.com/a'', ''foo.com/c'', ''bar.org/b'']), 0)"
proof -
  let ?cfg = "''url = git@foo.com:a'' @ CHR 0x0A # ''url = git@foo.com:c'' @ CHR 0x0A #
      ''url = git@bar.org:b''"
  let ?sha = "\<lambda>r::string. ''da39a3ee5e6b4b0d3255bfef95601890afd80709''"
  have h: "\<forall>r. ?sha r \<noteq> []" by simp
  have dcl: "declarations_from ?cfg 0 =
      [''git@foo.com:a'', ''git@foo.com:c'', ''git@bar.org:b'']"
    by code_simp
  have ro: "concat (map (remote_of uri_parse False)
      [''git@foo.com:a'', ''git@foo.com:c'', ''git@bar.org:b'']) =
      [''foo.com/a'', ''foo.com/c'', ''bar.org/b'']"
    by code_simp
  have en: "map (output_entry [])
      (first_occurrences (concat (map (domain_of uri_parse)
        [''git@foo.com:a'', ''git@foo.com:c'', ''git@bar.org:b'']))) =
      [''aaa.aaa'', ''aaa.aaa'']"
    by code_simp
  note t = C7_deduplication_before_redaction[of uri_parse ?cfg "[]" 0 False ?sha]
  from t have a: "getDomainsOfRemotes uri_parse ?cfg [] 0 =
      (Inr (map (output_entry [])
        (first_occurrences (concat (map (domain_of uri_parse) (declarations_from ?cfg 0))))), 0)"
    and b: "getRemotes uri_parse ?cfg False 0 =
      (Inr (concat (map (remote_of uri_parse False) (declarations_from ?cfg 0))), 0)"
    and c: "getHashedRemotesFromConfig ?sha uri_parse ?cfg False 0 =
      (Inr (map ?sha (concat (map (remote_of uri_parse False) (declarations_from ?cfg 0)))), 0)"
    by blast+
  from a have a': "getDomainsOfRemotes uri_parse ?cfg [] 0 =
      (Inr [''aaa.aaa'', ''aaa.aaa''], 0)"
    by (simp only: dcl en)
  from b have b': "getRemotes uri_parse ?cfg False 0 =
      (Inr [''foo.com/a'', ''foo.com/c'', ''bar.org/b''], 0)"
    by (simp only: dcl ro)
  from c have c': "getHashedRemotesFromConfig ?sha uri_parse ?cfg False 0 =
      (Inr (map ?sha [''foo.com/a'', ''foo.com/c'', ''bar.org/b'']), 0)"
    by (simp only: dcl ro)
  have n: "[] \<notin> set [''aaa.aaa'', ''aaa.aaa'']" by simp
  from h a' b' c' n show ?thesis by blast
qed

text \<open>
  C8. \<^verbatim>\<open>getHashedRemotesFromUri\<close> never returns a rejected promise, and when the file
  service rejects the lookup of \<^verbatim>\<open>.git/config\<close> under the root (no such file) or the
  reading of its content as text (unreadable, or binary), the promise is fulfilled with
  the empty sequence.
\<close>

theorem C8_missing_config_gives_no_remotes:
  fixes fs :: "'stat fileService"
  shows "(\<exists>hs li'. getHashedRemotesFromUri sha1 parse root fs strip li = (Inr hs, li')) \<and>
         ((\<exists>e. resolveFile fs
                  (root\<lparr>path := (if path root \<noteq> ''/'' then path root else []) @ ''/.git/config''\<rparr>)
                = Inl e) \<or>
          (\<exists>e. resolveContent fs
                  (root\<lparr>path := (if path root \<noteq> ''/'' then path root else []) @ ''/.git/config''\<rparr>)
                  True
                = Inl e) \<longrightarrow>
            getHashedRemotesFromUri sha1 parse root fs strip li = (Inr [], li))"
  by (auto simp: getHashedRemotesFromUri_def Let_def getHashedRemotesFromConfig_eq
      split: sum.splits)

theorem C8_missing_config_gives_no_remotes_witness:
  "resolveFile \<lparr>resolveFile = (\<lambda>u. Inl FileError), resolveContent = (\<lambda>u b. Inl FileError)\<rparr>
     (\<lparr>scheme = ''file'', authority = [], path = ''/home/me/project'', query = [], fragment = []\<rparr>
        \<lparr>path := ''/home/me/project/.git/config''\<rparr>) = (Inl FileError :: error + unit) \<and>
   getHashedRemotesFromUri (\<lambda>r. r) uri_parse
     \<lparr>scheme = ''file'', authority = [], path = ''/home/me/project'', query = [], fragment = []\<rparr>
     (\<lparr>resolveFile = (\<lambda>u. Inl FileError), resolveContent = (\<lambda>u b. Inl FileError)\<rparr>
        :: unit fileService)
     True 0 = (Inr [], 0)"
  using C8_missing_config_gives_no_remotes[of "\<lambda>r. r" uri_parse
      "\<lparr>scheme = ''file'', authority = [], path = ''/home/me/project'', query = [], fragment = []\<rparr>"
      "\<lparr>resolveFile = (\<lambda>u. Inl FileError), resolveContent = (\<lambda>u b. Inl FileError)\<rparr> :: unit fileService"
      True 0]
  by simp

text \<open>
  C9. \<^verbatim>\<open>getHashedRemotesFromConfig\<close> is deterministic: the first call, from the
  \<^verbatim>\<open>lastIndex\<close> 0 of the freshly loaded module, leaves a \<^verbatim>\<open>lastIndex\<close> from which a
  second call on the same text and flag gives the same sequence of digests (and the same
  \<^verbatim>\<open>lastIndex\<close> again).
\<close>

theorem C9_hashed_remotes_deterministic:
  "getHashedRemotesFromConfig sha1 parse cfg strip
     (snd (getHashedRemotesFromConfig sha1 parse cfg strip 0)) =
   getHashedRemotesFromConfig sha1 parse cfg strip 0"
  by (simp add: getHashedRemotesFromConfig_eq)

text \<open>
  C10. \<^verbatim>\<open>normalizeRemote\<close> tests host and path before it strips the suffix: with the
  flag set and the path exactly \<^verbatim>\<open>.git\<close>, the result for a non-empty host is the host
  followed by \<^verbatim>\<open>/\<close>, and \<^verbatim>\<open>getRemotes\<close> on \<^verbatim>\<open>url = git@github.com:.git\<close> returns the
  one entry \<^verbatim>\<open>github.com/\<close>.
\<close>

theorem C10_dot_git_path_kept:
  "(host \<noteq> [] \<longrightarrow> normalizeRemote (Some host) (Some ''.git'') True = Some (host @ ''/'')) \<and>
   getRemotes parse ''url = git@github.com:.git'' True 0 = (Inr [''github.com/''], 0)"
proof
  show "host \<noteq> [] \<longrightarrow> normalizeRemote (Some host) (Some ''.git'') True = Some (host @ ''/'')"
    by (simp add: normalizeRemote_def endsWith_def substr_def)
  show "getRemotes parse ''url = git@github.com:.git'' True 0 = (Inr [''github.com/''], 0)"
    by code_simp
qed

theorem C10_dot_git_path_kept_witness:
  "''github.com'' \<noteq> [] \<and>
   normalizeRemote (Some ''github.com'') (Some ''.git'') True = Some ''github.com/'' \<and>
   getRemotes uri_parse ''url = git@github.com:.git'' True 0 = (Inr [''github.com/''], 0)"
  using C10_dot_git_path_kept[of "''github.com''" uri_parse] by simp

end
